theory Spec2Isabelle
  imports Main "HOL-Library.AList" "HOL-Library.Multiset"
begin

section \<open>CovidTracker: the data acquisition and aggregation pipeline\<close>

text \<open>
  A shallow embedding of \<^verbatim>\<open>SuperHelper/Modules/CovidTracker/__main__.py\<close>.
  Exceptions are values of the type \<open>error\<close>, a function that can raise returns
  \<open>error + 'a\<close> (\<open>Inl\<close> the exception), the cache directory and the network log are an
  explicit state, and the collaborators that are not code of the module (the remote server,
  the CSV reader, the part of the date parser outside the numeric day-month-year shape) are
  parameters.
\<close>

subsection \<open>Exceptions\<close>

text \<open>
  The module raises and lets through: \<^verbatim>\<open>ValueError(message)\<close> (its own raises, \<^verbatim>\<open>int()\<close>,
  a failed tuple unpacking), \<^verbatim>\<open>IndexError\<close> (list indexing and \<^verbatim>\<open>pop\<close>),
  \<^verbatim>\<open>urllib.error.HTTPError\<close> with its status code, \<^verbatim>\<open>urllib.error.URLError\<close> for the
  other failures of \<^verbatim>\<open>urlopen\<close>, and \<^verbatim>\<open>csv.Error\<close>.
\<close>

datatype error =
    ValueError string
  | IndexError
  | HTTPError nat
  | URLError
  | CsvError

subsection \<open>Python's \<^verbatim>\<open>int(str)\<close> on ASCII text\<close>

definition is_digit :: "char \<Rightarrow> bool" where
  "is_digit c = (48 \<le> (of_char c :: nat) \<and> (of_char c :: nat) \<le> 57)"

definition digit_val :: "char \<Rightarrow> nat" where
  "digit_val c = of_char c - 48"

text \<open>The ASCII characters for which \<^verbatim>\<open>str.isspace\<close> holds: tab to carriage return,
  the four separators 0x1c to 0x1f, and the space.\<close>

definition py_isspace :: "char \<Rightarrow> bool" where
  "py_isspace c = (let n = (of_char c :: nat) in (9 \<le> n \<and> n \<le> 13) \<or> (28 \<le> n \<and> n \<le> 32))"

definition py_strip :: "string \<Rightarrow> string" where
  "py_strip s = rev (dropWhile py_isspace (rev (dropWhile py_isspace s)))"

text \<open>Digits with single underscores between them; \<open>acc\<close> is the value read so far.\<close>

fun parse_digits :: "nat \<Rightarrow> string \<Rightarrow> nat option" where
  "parse_digits acc [] = Some acc"
| "parse_digits acc [c] = (if is_digit c then Some (10 * acc + digit_val c) else None)"
| "parse_digits acc (c # d # ds) =
     (if c = CHR ''_'' then
        (if is_digit d then parse_digits (10 * acc + digit_val d) ds else None)
      else if is_digit c then parse_digits (10 * acc + digit_val c) (d # ds)
      else None)"

definition parse_decimal :: "string \<Rightarrow> nat option" where
  "parse_decimal s =
     (case s of [] \<Rightarrow> None
      | c # cs \<Rightarrow> if is_digit c then parse_digits (digit_val c) cs else None)"

text \<open>The quoted form of the string in the message of \<^verbatim>\<open>int()\<close>: \<^verbatim>\<open>repr\<close> for text
  of printable ASCII characters without quote or backslash, where it only adds the quotes.\<close>

definition py_repr :: "string \<Rightarrow> string" where
  "py_repr s = [CHR 0x27] @ s @ [CHR 0x27]"

definition int_error :: "string \<Rightarrow> error" where
  "int_error s = ValueError (''invalid literal for int() with base 10: '' @ py_repr s)"

definition py_int :: "string \<Rightarrow> error + int" where
  "py_int s =
     (case py_strip s of
        [] \<Rightarrow> Inl (int_error s)
      | c # cs \<Rightarrow>
          if c = CHR ''-'' then
            (case parse_decimal cs of None \<Rightarrow> Inl (int_error s) | Some n \<Rightarrow> Inr (- int n))
          else if c = CHR ''+'' then
            (case parse_decimal cs of None \<Rightarrow> Inl (int_error s) | Some n \<Rightarrow> Inr (int n))
          else
            (case parse_decimal (c # cs) of None \<Rightarrow> Inl (int_error s) | Some n \<Rightarrow> Inr (int n)))"

subsection \<open>The state: cache directory and network log\<close>

text \<open>
  A day's aggregate is a Python \<^verbatim>\<open>dict\<close> from country name to the list of its counts. It is
  an association list in insertion order with distinct keys; \<open>AList.update\<close> is the
  assignment \<^verbatim>\<open>d[k] = v\<close> (in place for a key that is there, at the end for a new one).

  The cache directory holds the downloaded reports under the last component of their URL and
  the extracted aggregates under \<^verbatim>\<open>extracted-<stem>.json\<close>. A report file is kept as the
  list of lines \<^verbatim>\<open>readlines\<close> gives back, an aggregate file as the dictionary \<^verbatim>\<open>json.load\<close>
  gives back; the two kinds of file are two maps. \<open>requests\<close> is the list of the URLs
  \<^verbatim>\<open>urlopen\<close> was called with, \<open>lookups\<close> the list of the date strings
  \<^verbatim>\<open>get_data_for_date\<close> was called with; both only record what happened.
\<close>

type_synonym aggregate = "(string \<times> int list) list"

record state =
  source_cache :: "string \<rightharpoonup> string list"
  extracted_cache :: "string \<rightharpoonup> aggregate"
  requests :: "string list"
  lookups :: "string list"

subsection \<open>\<^verbatim>\<open>extract_source_data\<close>\<close>

definition starting_index :: nat where
  "starting_index = 7"

definition number_of_field :: nat where
  "number_of_field = 4"

text \<open>\<^verbatim>\<open>list(map(lambda s: "0" if s == "" else s, entry))\<close>\<close>

definition normalise_entry :: "string list \<Rightarrow> string list" where
  "normalise_entry entry = map (\<lambda>s. if s = '''' then ''0'' else s) entry"

text \<open>\<^verbatim>\<open>list(map(int, fields))\<close>: the first field that is no integer raises.\<close>

fun map_int :: "string list \<Rightarrow> error + int list" where
  "map_int [] = Inr []"
| "map_int (s # ss) =
     (case py_int s of
        Inl e \<Rightarrow> Inl e
      | Inr v \<Rightarrow> (case map_int ss of Inl e \<Rightarrow> Inl e | Inr vs \<Rightarrow> Inr (v # vs)))"

text \<open>
  \<^verbatim>\<open>for i in range(number_of_field): data[country_name][i] += int(entry[starting_index + i])\<close>.
  The augmented assignment reads \<^verbatim>\<open>data[country_name][i]\<close> first, then evaluates the right
  side; each of the two index operations raises \<^verbatim>\<open>IndexError\<close> out of range.
\<close>

fun add_fields :: "nat list \<Rightarrow> string list \<Rightarrow> int list \<Rightarrow> error + int list" where
  "add_fields [] entry tally = Inr tally"
| "add_fields (i # is) entry tally =
     (if length tally \<le> i then Inl IndexError
      else if length entry \<le> starting_index + i then Inl IndexError
      else case py_int (entry ! (starting_index + i)) of
             Inl e \<Rightarrow> Inl e
           | Inr v \<Rightarrow> add_fields is entry (tally[i := tally ! i + v]))"

text \<open>The body of the loop over the rows.\<close>

definition add_entry :: "string list \<Rightarrow> aggregate \<Rightarrow> error + aggregate" where
  "add_entry row data =
     (let entry = normalise_entry row in
      if length entry \<le> 3 then Inl IndexError
      else
        let country_name = entry ! 3 in
        case map_of data country_name of
          Some tally \<Rightarrow>
            (case add_fields [0..<number_of_field] entry tally of
               Inl e \<Rightarrow> Inl e
             | Inr tally' \<Rightarrow> Inr (AList.update country_name tally' data))
        | None \<Rightarrow>
            (case map_int (take number_of_field (drop starting_index entry)) of
               Inl e \<Rightarrow> Inl e
             | Inr tally \<Rightarrow> Inr (AList.update country_name tally data)))"

fun aggregate_rows :: "string list list \<Rightarrow> aggregate \<Rightarrow> error + aggregate" where
  "aggregate_rows [] data = Inr data"
| "aggregate_rows (entry # rest) data =
     (case add_entry entry data of
        Inl e \<Rightarrow> Inl e
      | Inr data' \<Rightarrow> aggregate_rows rest data')"

text \<open>
  The function returns its result, the caller's list as the call leaves it (\<^verbatim>\<open>pop(0)\<close>
  mutates it) and the new state. \<^verbatim>\<open>pop(0)\<close> on an empty list raises \<^verbatim>\<open>IndexError\<close>.
\<close>

definition extract_source_data ::
  "string list list \<Rightarrow> string option \<Rightarrow> bool \<Rightarrow> state
     \<Rightarrow> (error + aggregate) \<times> string list list \<times> state" where
  "extract_source_data parsed_data cache_file force st =
     (case parsed_data of
        [] \<Rightarrow> (Inl IndexError, [], st)
      | header # rows \<Rightarrow>
          (case (if \<not> force then (case cache_file of None \<Rightarrow> None
                                   | Some f \<Rightarrow> extracted_cache st f)
                 else None) of
             Some cached \<Rightarrow> (Inr cached, rows, st)
           | None \<Rightarrow>
               (case aggregate_rows rows [] of
                  Inl e \<Rightarrow> (Inl e, rows, st)
                | Inr data \<Rightarrow>
                    (Inr data, rows,
                     (case cache_file of
                        None \<Rightarrow> st
                      | Some f \<Rightarrow> st\<lparr>extracted_cache := (extracted_cache st)(f \<mapsto> data)\<rparr>)))))"

subsection \<open>Dates\<close>

text \<open>
  A \<^verbatim>\<open>datetime\<close> is a point of the proleptic Gregorian time line, counted in microseconds
  from the midnight that starts the day of ordinal 0, so that the whole days in it are the
  \<^verbatim>\<open>toordinal()\<close> of Python (1 for 0001-01-01). A \<^verbatim>\<open>timedelta\<close> is a number of
  microseconds; its attribute \<^verbatim>\<open>days\<close> rounds down. The bounds of \<^verbatim>\<open>datetime\<close> (years 1
  to 9999, \<^verbatim>\<open>OverflowError\<close> beyond) are not modelled.
\<close>

type_synonym datetime = int

definition day_us :: int where
  "day_us = 86400000000"

definition toordinal :: "datetime \<Rightarrow> int" where
  "toordinal t = t div day_us"

definition timedelta_days :: "int \<Rightarrow> int" where
  "timedelta_days n = n * day_us"

definition td_days :: "int \<Rightarrow> int" where
  "td_days delta = delta div day_us"

text \<open>\<^verbatim>\<open>origin_date = dt.datetime(day=2, month=12, year=2020)\<close>, of ordinal 737761.\<close>

definition origin_date :: datetime where
  "origin_date = 737761 * day_us"

text \<open>The calendar of \<^verbatim>\<open>datetime\<close>: \<^verbatim>\<open>_is_leap\<close>, \<^verbatim>\<open>_days_in_month\<close>, the tables
  \<^verbatim>\<open>_DAYS_IN_MONTH\<close> and \<^verbatim>\<open>_DAYS_BEFORE_MONTH\<close> for the months 1 to 12, and
  \<^verbatim>\<open>_ord2ymd\<close> of the standard library.\<close>

definition is_leap :: "int \<Rightarrow> bool" where
  "is_leap y = (y mod 4 = 0 \<and> (y mod 100 \<noteq> 0 \<or> y mod 400 = 0))"

definition days_in_month_table :: "int \<Rightarrow> int" where
  "days_in_month_table m = [31, 28, 31, 30, 31, 30, 31, 31, 30, 31, 30, 31] ! nat (m - 1)"

definition days_in_month :: "int \<Rightarrow> int \<Rightarrow> int" where
  "days_in_month y m = (if m = 2 \<and> is_leap y then 29 else days_in_month_table m)"

definition days_before_month_table :: "int \<Rightarrow> int" where
  "days_before_month_table m =
     [0, 31, 59, 90, 120, 151, 181, 212, 243, 273, 304, 334] ! nat (m - 1)"

definition ord2ymd :: "int \<Rightarrow> int \<times> int \<times> int" where
  "ord2ymd ordinal =
     (let n = ordinal - 1;
          n400 = n div 146097; r400 = n mod 146097;
          n100 = r400 div 36524; r100 = r400 mod 36524;
          n4 = r100 div 1461; r4 = r100 mod 1461;
          n1 = r4 div 365; r1 = r4 mod 365;
          year = n400 * 400 + 1 + n100 * 100 + n4 * 4 + n1
      in if n1 = 4 \<or> n100 = 4 then (year - 1, 12, 31)
         else
           let leapyear = (n1 = 3 \<and> (n4 \<noteq> 24 \<or> n100 = 3));
               month = (r1 + 50) div 32;
               preceding = days_before_month_table month + (if month > 2 \<and> leapyear then 1 else 0)
           in if preceding > r1 then
                (let month' = month - 1;
                     preceding' = preceding
                       - (days_in_month_table month' + (if month' = 2 \<and> leapyear then 1 else 0))
                 in (year, month', r1 - preceding' + 1))
              else (year, month, r1 - preceding + 1))"

text \<open>\<^verbatim>\<open>strftime("%m-%d-%Y")\<close>: month and day in two digits, the year in decimal (four
  digits from the year 1000 on).\<close>

definition digit_char :: "nat \<Rightarrow> char" where
  "digit_char n = char_of (48 + n)"

definition pad2 :: "nat \<Rightarrow> string" where
  "pad2 n = [digit_char (n div 10), digit_char (n mod 10)]"

function dec :: "nat \<Rightarrow> string" where
  "dec n = (if n < 10 then [digit_char n] else dec (n div 10) @ [digit_char (n mod 10)])"
  by pat_completeness auto
termination
  by (relation "measure id") auto

declare dec.simps [simp del]

definition strftime_fields :: "nat \<times> nat \<times> nat \<Rightarrow> string" where
  "strftime_fields ymd = (case ymd of (y, m, d) \<Rightarrow> pad2 m @ ''-'' @ pad2 d @ ''-'' @ dec y)"

definition strftime_mdY :: "datetime \<Rightarrow> string" where
  "strftime_mdY t =
     (case ord2ymd (toordinal t) of (y, m, d) \<Rightarrow> strftime_fields (nat y, nat m, nat d))"

subsection \<open>\<^verbatim>\<open>normalise_datetime\<close>\<close>

text \<open>
  \<^verbatim>\<open>dateutil.parser.parse(date_string, dayfirst=True)\<close> is a library. Its behaviour on the
  texts of the shape two digits, hyphen, two digits, hyphen, four digits, which is the shape
  \<^verbatim>\<open>normalise_datetime\<close> produces, is written out: the three numbers are split, the branch
  of \<^verbatim>\<open>_ymd.resolve_ymd\<close> for three numbers of which the last was written with more than two
  digits assigns day, month and year, and the construction of the \<^verbatim>\<open>datetime\<close> fails on a
  date that does not exist. What the parser makes of any other text is the parameter
  \<open>other_formats\<close> (\<open>None\<close> where it raises \<^verbatim>\<open>ValueError\<close>).
\<close>

definition numeric_tokens :: "string \<Rightarrow> (nat \<times> nat \<times> nat) option" where
  "numeric_tokens s =
     (if length s = 10 \<and> s ! 2 = CHR ''-'' \<and> s ! 5 = CHR ''-''
         \<and> (\<forall>i\<in>{0, 1, 3, 4, 6, 7, 8, 9}. is_digit (s ! i))
      then Some (10 * digit_val (s ! 0) + digit_val (s ! 1),
                 10 * digit_val (s ! 3) + digit_val (s ! 4),
                 1000 * digit_val (s ! 6) + 100 * digit_val (s ! 7)
                   + 10 * digit_val (s ! 8) + digit_val (s ! 9))
      else None)"

definition resolve_ymd :: "nat \<Rightarrow> nat \<Rightarrow> nat \<Rightarrow> nat \<times> nat \<times> nat" where
  "resolve_ymd a b c =
     (if a > 31 then (if c \<le> 12 then (a, c, b) else (a, b, c))
      else if a > 12 \<or> b \<le> 12 then (c, b, a)
      else (c, a, b))"

definition valid_date :: "nat \<times> nat \<times> nat \<Rightarrow> bool" where
  "valid_date ymd =
     (case ymd of (y, m, d) \<Rightarrow>
        1 \<le> y \<and> y \<le> 9999 \<and> 1 \<le> m \<and> m \<le> 12 \<and> 1 \<le> d \<and> int d \<le> days_in_month (int y) (int m))"

definition dateutil_parse ::
  "(string \<Rightarrow> (nat \<times> nat \<times> nat) option) \<Rightarrow> string \<Rightarrow> (nat \<times> nat \<times> nat) option" where
  "dateutil_parse other_formats s =
     (case (case numeric_tokens s of
              Some (a, b, c) \<Rightarrow> Some (resolve_ymd a b c)
            | None \<Rightarrow> other_formats s) of
        None \<Rightarrow> None
      | Some ymd \<Rightarrow> if valid_date ymd then Some ymd else None)"

definition normalise_datetime ::
  "(string \<Rightarrow> (nat \<times> nat \<times> nat) option) \<Rightarrow> string \<Rightarrow> error + string" where
  "normalise_datetime other_formats date_string =
     (case dateutil_parse other_formats date_string of
        None \<Rightarrow> Inl (ValueError ''Invalid date format'')
      | Some ymd \<Rightarrow> Inr (strftime_fields ymd))"


subsection \<open>The collaborators\<close>

text \<open>
  What the module takes from outside: \<open>urlopen url\<close> is the outcome of
  \<^verbatim>\<open>list(url_req.urlopen(url))\<close> followed by the decoding of every line (the lines, or the
  exception raised); \<open>csv_reader text\<close> is the outcome of \<^verbatim>\<open>list(csv.reader(io.StringIO(text)))\<close>;
  \<open>latest_date\<close> is the value of the global of that name, found once when the module is
  loaded by the loop that probes backwards from today; \<open>np_subtract a b\<close> is
  \<^verbatim>\<open>np.array(a) - np.array(b)\<close> of numpy.
\<close>

record env =
  urlopen :: "string \<Rightarrow> error + string list"
  csv_reader :: "string \<Rightarrow> error + string list list"
  latest_date :: datetime
  np_subtract :: "int list \<Rightarrow> int list \<Rightarrow> error + int list"

subsection \<open>\<^verbatim>\<open>create_source_url\<close>\<close>

text \<open>
  \<^verbatim>\<open>re.match(r"^(0[1-9]|1[012])-(0[1-9]|[12][0-9]|3[01])-20\d\d$", date_string)\<close> on ASCII
  text; \<^verbatim>\<open>$\<close> also matches before a newline that ends the text.
\<close>

definition month_digits :: "char \<Rightarrow> char \<Rightarrow> bool" where
  "month_digits a b =
     ((a = CHR ''0'' \<and> is_digit b \<and> b \<noteq> CHR ''0'') \<or>
      (a = CHR ''1'' \<and> (b = CHR ''0'' \<or> b = CHR ''1'' \<or> b = CHR ''2'')))"

definition day_digits :: "char \<Rightarrow> char \<Rightarrow> bool" where
  "day_digits a b =
     ((a = CHR ''0'' \<and> is_digit b \<and> b \<noteq> CHR ''0'') \<or>
      ((a = CHR ''1'' \<or> a = CHR ''2'') \<and> is_digit b) \<or>
      (a = CHR ''3'' \<and> (b = CHR ''0'' \<or> b = CHR ''1'')))"

definition date_shape :: "string \<Rightarrow> bool" where
  "date_shape s =
     (length s = 10 \<and> month_digits (s ! 0) (s ! 1) \<and> s ! 2 = CHR ''-''
      \<and> day_digits (s ! 3) (s ! 4) \<and> s ! 5 = CHR ''-''
      \<and> s ! 6 = CHR ''2'' \<and> s ! 7 = CHR ''0'' \<and> is_digit (s ! 8) \<and> is_digit (s ! 9))"

definition re_match_date :: "string \<Rightarrow> bool" where
  "re_match_date s =
     (date_shape s \<or> (s \<noteq> [] \<and> last s = CHR 0x0A \<and> date_shape (butlast s)))"

definition invalid_date_format :: error where
  "invalid_date_format =
     ValueError ''Invalid date format, must be MM-DD-YYY! Try using normalise_datetime()!''"

definition gh_branch_url :: string where
  "gh_branch_url = ''https://raw.githubusercontent.com/CSSEGISandData/COVID-19/master''"

definition source_path :: string where
  "source_path = ''/csse_covid_19_data/csse_covid_19_daily_reports/''"

definition create_source_url :: "string \<Rightarrow> error + string" where
  "create_source_url date_string =
     (if \<not> re_match_date date_string then Inl invalid_date_format
      else Inr (gh_branch_url @ source_path @ (date_string @ ''.csv'')))"

subsection \<open>\<^verbatim>\<open>get_source_file\<close>\<close>

text \<open>\<^verbatim>\<open>pathlib.Path(url).name\<close>: the last of the components between slashes that is
  neither empty nor a single dot, the empty text when there is none.\<close>

fun split_on :: "char \<Rightarrow> string \<Rightarrow> string list" where
  "split_on c [] = [[]]"
| "split_on c (x # xs) =
     (if x = c then [] # split_on c xs
      else (case split_on c xs of [] \<Rightarrow> [[x]] | p # ps \<Rightarrow> (x # p) # ps))"

definition path_name :: "string \<Rightarrow> string" where
  "path_name url =
     (case filter (\<lambda>p. p \<noteq> [] \<and> p \<noteq> ''.'') (split_on CHR ''/'' url) of
        [] \<Rightarrow> []
      | p # ps \<Rightarrow> last (p # ps))"

definition get_source_file ::
  "env \<Rightarrow> string \<Rightarrow> bool \<Rightarrow> state \<Rightarrow> (error + string list) \<times> state" where
  "get_source_file E url force st =
     (let filename = path_name url in
      case (if \<not> force then source_cache st filename else None) of
        Some cached_lines \<Rightarrow> (Inr cached_lines, st)
      | None \<Rightarrow>
          (let st1 = st\<lparr>requests := requests st @ [url]\<rparr> in
           case urlopen E url of
             Inl e \<Rightarrow> (Inl e, st1)
           | Inr string_data \<Rightarrow>
               (Inr string_data,
                st1\<lparr>source_cache := (source_cache st1)(filename \<mapsto> string_data)\<rparr>)))"

subsection \<open>\<^verbatim>\<open>parse_source_data\<close> and \<^verbatim>\<open>get_data_for_date\<close>\<close>

definition parse_source_data :: "env \<Rightarrow> string list \<Rightarrow> error + string list list" where
  "parse_source_data E source_data = csv_reader E (concat source_data)"

text \<open>\<^verbatim>\<open>CacheDir / f"extracted-{pathlib.Path(url).name.split('.')[0]}.json"\<close>\<close>

definition cache_filename :: "string \<Rightarrow> string" where
  "cache_filename url = ''extracted-'' @ takeWhile (\<lambda>c. c \<noteq> CHR ''.'') (path_name url) @ ''.json''"

definition get_data_for_date ::
  "env \<Rightarrow> string \<Rightarrow> bool \<Rightarrow> state \<Rightarrow> (error + aggregate) \<times> state" where
  "get_data_for_date E date_string force st =
     (let st0 = st\<lparr>lookups := lookups st @ [date_string]\<rparr> in
      if \<not> re_match_date date_string then (Inl invalid_date_format, st0)
      else
        case create_source_url date_string of
          Inl e \<Rightarrow> (Inl e, st0)
        | Inr url \<Rightarrow>
            (case get_source_file E url force st0 of
               (Inl e, st1) \<Rightarrow> (Inl e, st1)
             | (Inr source_file, st1) \<Rightarrow>
                 (case parse_source_data E source_file of
                    Inl e \<Rightarrow> (Inl e, st1)
                  | Inr parsed_source_file \<Rightarrow>
                      (case extract_source_data parsed_source_file
                              (Some (cache_filename url)) force st1 of
                         (result, _, st2) \<Rightarrow> (result, st2)))))"

subsection \<open>\<^verbatim>\<open>get_country_data\<close>\<close>

text \<open>
  The loop \<^verbatim>\<open>for i in range((end_date - start_date).days + 1)\<close>, over the list of the
  values of \<open>i\<close> still to come. The result is a dictionary from date string to tally, an
  association list in insertion order.
\<close>

fun country_loop ::
  "env \<Rightarrow> string \<Rightarrow> datetime \<Rightarrow> int list \<Rightarrow> (string \<times> int list) list \<Rightarrow> state
     \<Rightarrow> (error + (string \<times> int list) list) \<times> state" where
  "country_loop E country start_date [] result st = (Inr result, st)"
| "country_loop E country start_date (i # is) result st =
     (let date_string = strftime_mdY (start_date + timedelta_days i) in
      case get_data_for_date E date_string False st of
        (Inl e, st') \<Rightarrow> (Inl e, st')
      | (Inr data, st') \<Rightarrow>
          (case map_of data country of
             Some country_data \<Rightarrow>
               country_loop E country start_date is
                 (AList.update date_string country_data result) st'
           | None \<Rightarrow> (Inl (ValueError country), st')))"

definition get_country_data ::
  "env \<Rightarrow> string \<Rightarrow> datetime option \<Rightarrow> datetime option \<Rightarrow> state
     \<Rightarrow> (error + (string \<times> int list) list) \<times> state" where
  "get_country_data E country start_date end_date st =
     (let end_date' = (case end_date of
                         None \<Rightarrow> latest_date E
                       | Some e \<Rightarrow> if e > latest_date E then latest_date E else e);
          start_date' = (case start_date of
                           None \<Rightarrow> origin_date
                         | Some s \<Rightarrow> if s < origin_date then origin_date else s)
      in country_loop E country start_date' [0..td_days (end_date' - start_date')] [] st)"

subsection \<open>\<^verbatim>\<open>cache_data\<close>\<close>



subsection \<open>\<^verbatim>\<open>get_new_changes\<close>\<close>




section \<open>Notions used to state the properties\<close>

subsection \<open>Aggregation\<close>

text \<open>
  The four counts of a row that has them all, the field-wise addition of the loop over
  \<^verbatim>\<open>range(number_of_field)\<close>, and the effect of one row on the dictionary seen as a map,
  with \<open>None\<close> for a run that has raised.
\<close>

definition row_values :: "string list \<Rightarrow> int list option" where
  "row_values entry =
     (if length entry < 11 then None
      else case map_int [entry ! 7, entry ! 8, entry ! 9, entry ! 10] of
             Inl e \<Rightarrow> None | Inr vs \<Rightarrow> Some vs)"

definition add4 :: "int list \<Rightarrow> int list \<Rightarrow> int list" where
  "add4 t vs = t[0 := t ! 0 + vs ! 0, 1 := t ! 1 + vs ! 1, 2 := t ! 2 + vs ! 2, 3 := t ! 3 + vs ! 3]"

definition tally_step :: "string list \<Rightarrow> int list option \<Rightarrow> int list option" where
  "tally_step e x =
     (case x of
        None \<Rightarrow> (case map_int (take number_of_field (drop starting_index e)) of
                   Inl _ \<Rightarrow> None | Inr t \<Rightarrow> Some t)
      | Some t \<Rightarrow> (case add_fields [0..<number_of_field] e t of
                     Inl _ \<Rightarrow> None | Inr t' \<Rightarrow> Some t'))"

definition map_step ::
  "string list \<Rightarrow> (string \<rightharpoonup> int list) option \<Rightarrow> (string \<rightharpoonup> int list) option" where
  "map_step row s =
     (case s of
        None \<Rightarrow> None
      | Some m \<Rightarrow>
          let e = normalise_entry row in
          if length e \<le> 3 then None
          else case tally_step e (m (e ! 3)) of
                 None \<Rightarrow> None
               | Some t \<Rightarrow> Some (m(e ! 3 \<mapsto> t)))"

definition outcome :: "error + aggregate \<Rightarrow> (string \<rightharpoonup> int list) option" where
  "outcome r = (case r of Inl _ \<Rightarrow> None | Inr d \<Rightarrow> Some (map_of d))"

text \<open>
  The words of the specification: the country of a row is its field 3 and its counts are
  the integers in the fields 7 to 10, both read after the empty fields have been replaced
  by \<^verbatim>\<open>"0"\<close>; the tally of a country is the field-wise sum over its rows.
\<close>

definition country_of :: "string list \<Rightarrow> string" where
  "country_of row = normalise_entry row ! 3"

definition field_int :: "nat \<Rightarrow> string list \<Rightarrow> int" where
  "field_int k row = (case py_int (normalise_entry row ! k) of Inl _ \<Rightarrow> 0 | Inr v \<Rightarrow> v)"

definition rows_of :: "string \<Rightarrow> string list list \<Rightarrow> string list list" where
  "rows_of c rows = filter (\<lambda>row. country_of row = c) rows"

definition field_sum :: "nat \<Rightarrow> string \<Rightarrow> string list list \<Rightarrow> int" where
  "field_sum k c rows = sum_list (map (field_int k) (rows_of c rows))"

definition country_tally :: "string \<Rightarrow> string list list \<Rightarrow> int list" where
  "country_tally c rows = [field_sum 7 c rows, field_sum 8 c rows, field_sum 9 c rows, field_sum 10 c rows]"

text \<open>
  What the code makes of any report: a country with a single row gets the integers of those
  of its fields 7 to 10 that the row has (\<^verbatim>\<open>list(map(int, entry[7:11]))\<close>), a country
  with several rows the field-wise sum.
\<close>

definition row_tally :: "string list \<Rightarrow> int list option" where
  "row_tally row =
     (case map_int (take number_of_field (drop starting_index (normalise_entry row))) of
        Inl e \<Rightarrow> None | Inr t \<Rightarrow> Some t)"

definition expected_tally :: "string \<Rightarrow> string list list \<Rightarrow> int list option" where
  "expected_tally c rows =
     (case rows_of c rows of
        [] \<Rightarrow> None
      | [r] \<Rightarrow> row_tally r
      | r # r' # rs \<Rightarrow> Some (country_tally c rows))"

text \<open>Concrete reports and states on which the properties are evaluated.\<close>

definition empty_state :: state where
  "empty_state = \<lparr>source_cache = Map.empty, extracted_cache = Map.empty, requests = [], lookups = []\<rparr>"

definition sample_rows :: "string list list" where
  "sample_rows =
     [[''Head'', '''', ''North'', ''X'', ''2021-01-02'', ''1.5'', ''2.5'', ''1'', ''2'', ''3'', ''4''],
      ['''', '''', ''South'', ''X'', ''2021-01-02'', '''', '''', ''5'', '''', '''', ''1'']]"

definition sample_header :: "string list" where
  "sample_header = [''FIPS'', ''Admin2'', ''Province_State'', ''Country_Region'', ''Last_Update'',
     ''Lat'', ''Long_'', ''Confirmed'', ''Deaths'', ''Recovered'', ''Active'']"

text \<open>The call does not return the cached aggregate: it is forced, or has no cache file,
  or the cache file is not there.\<close>

definition aggregating :: "string option \<Rightarrow> bool \<Rightarrow> state \<Rightarrow> bool" where
  "aggregating cache_file force st =
     (force \<or> (case cache_file of None \<Rightarrow> True | Some f \<Rightarrow> extracted_cache st f = None))"

definition mixed_rows :: "string list list" where
  "mixed_rows =
     [['''', '''', ''North'', ''X'', '''', '''', '''', ''1'', ''2'', ''3'', ''4''],
      ['''', '''', '''', ''Y'', '''', '''', '''', ''7'', ''0'', ''1'', ''6''],
      ['''', '''', ''South'', ''X'', '''', '''', '''', ''5'', '''', '''', ''1'']]"

definition cached_state :: state where
  "cached_state = empty_state\<lparr>extracted_cache := [''extracted-12-02-2020.json'' \<mapsto> [(''X'', [1, 2, 3, 4])]]\<rparr>"

subsection \<open>Ranges of dates\<close>

text \<open>
  The words of the specification: the bounds of a query after clamping, the number of days
  \<^verbatim>\<open>cache_data\<close> walks, and the date string of the day with a given ordinal.
\<close>

definition effective_start :: "datetime option \<Rightarrow> datetime" where
  "effective_start start_date =
     (case start_date of None \<Rightarrow> origin_date
      | Some s \<Rightarrow> if s < origin_date then origin_date else s)"

definition effective_end :: "env \<Rightarrow> datetime option \<Rightarrow> datetime" where
  "effective_end E end_date =
     (case end_date of None \<Rightarrow> latest_date E
      | Some e \<Rightarrow> if e > latest_date E then latest_date E else e)"

definition absent_or_before_origin :: "datetime option \<Rightarrow> bool" where
  "absent_or_before_origin start_date =
     (case start_date of None \<Rightarrow> True | Some s \<Rightarrow> s < origin_date)"

definition absent_or_after_latest :: "env \<Rightarrow> datetime option \<Rightarrow> bool" where
  "absent_or_after_latest E end_date =
     (case end_date of None \<Rightarrow> True | Some e \<Rightarrow> e > latest_date E)"


definition date_string_of_ordinal :: "int \<Rightarrow> string" where
  "date_string_of_ordinal n = strftime_mdY (n * day_us)"



subsection \<open>The calendar backwards\<close>





subsection \<open>Date texts\<close>

text \<open>A parser that knows no other text than the numeric shape, for the evaluation of
  \<^verbatim>\<open>normalise_datetime\<close> on texts of that shape.\<close>

definition no_other_formats :: "string \<Rightarrow> (nat \<times> nat \<times> nat) option" where
  "no_other_formats s = None"


subsection \<open>A small world to run the pipeline in\<close>

text \<open>
  \<^verbatim>\<open>csv.reader\<close> on text without quotes, carriage returns or empty lines: the rows are the
  lines, the fields the pieces between commas.
\<close>

definition plain_csv_reader :: "string \<Rightarrow> error + string list list" where
  "plain_csv_reader text =
     Inr (map (split_on CHR '','') (filter (\<lambda>l. l \<noteq> []) (split_on CHR 0x0A text)))"

text \<open>
  numpy on two lists of integers that fit in 64 bits: arrays of \<^verbatim>\<open>int64\<close>, subtracted
  element by element with wrap-around, a list of one element being stretched to the length
  of the other.
\<close>

definition wrap64 :: "int \<Rightarrow> int" where
  "wrap64 x = (x + 2 ^ 63) mod 2 ^ 64 - 2 ^ 63"

definition numpy_int64_subtract :: "int list \<Rightarrow> int list \<Rightarrow> error + int list" where
  "numpy_int64_subtract a b =
     (if length a = length b then Inr (map2 (\<lambda>x y. wrap64 (x - y)) a b)
      else if length b = 1 then Inr (map (\<lambda>x. wrap64 (x - hd b)) a)
      else if length a = 1 then Inr (map (\<lambda>y. wrap64 (hd a - y)) b)
      else Inl (ValueError (''operands could not be broadcast together with shapes (''
                  @ dec (length a) @ '',) ('' @ dec (length b) @ '',) '')))"

text \<open>
  Three daily reports: \<^verbatim>\<open>X\<close> is in all of them, in two rows on the second day;
  \<^verbatim>\<open>Y\<close> is missing on the second day. The server has nothing else.
\<close>

definition header_line :: string where
  "header_line = ''FIPS,Admin2,Province_State,Country_Region,Last_Update,Lat,Long_,Confirmed,Deaths,Recovered,Active'' @ [CHR 0x0A]"

definition report_02 :: "string list" where
  "report_02 = [header_line, '',,,X,,,,10,1,2,3'' @ [CHR 0x0A], '',,,Y,,,,7,0,1,6'' @ [CHR 0x0A]]"

definition report_03 :: "string list" where
  "report_03 = [header_line, '',,North,X,,,,9,1,3,4'' @ [CHR 0x0A], '',,South,X,,,,6,,,1'' @ [CHR 0x0A]]"

definition report_04 :: "string list" where
  "report_04 = [header_line, '',,,X,,,,16,1,3,6'' @ [CHR 0x0A], '',,,Y,,,,8,0,1,7'' @ [CHR 0x0A]]"

definition sample_web :: "string \<Rightarrow> error + string list" where
  "sample_web url =
     (let name = path_name url in
      if name = ''12-02-2020.csv'' then Inr report_02
      else if name = ''12-03-2020.csv'' then Inr report_03
      else if name = ''12-04-2020.csv'' then Inr report_04
      else Inl (HTTPError 404))"

text \<open>The latest report is the one of 4 December 2020, found at noon.\<close>

definition sample_env :: env where
  "sample_env = \<lparr>urlopen = sample_web, csv_reader = plain_csv_reader,
                  latest_date = origin_date + timedelta_days 2 + 43200000000,
                  np_subtract = numpy_int64_subtract\<rparr>"


definition url_02 :: string where
  "url_02 = gh_branch_url @ source_path @ ''12-02-2020.csv''"

definition url_03 :: string where
  "url_03 = gh_branch_url @ source_path @ ''12-03-2020.csv''"

definition url_04 :: string where
  "url_04 = gh_branch_url @ source_path @ ''12-04-2020.csv''"

definition aggregate_02 :: aggregate where
  "aggregate_02 = [(''X'', [10, 1, 2, 3]), (''Y'', [7, 0, 1, 6])]"

definition aggregate_03 :: aggregate where
  "aggregate_03 = [(''X'', [15, 1, 3, 5])]"

definition aggregate_04 :: aggregate where
  "aggregate_04 = [(''X'', [16, 1, 3, 6]), (''Y'', [8, 0, 1, 7])]"

text \<open>The state after the report of 2 December has been fetched and extracted.\<close>

definition state_02 :: state where
  "state_02 = \<lparr>source_cache = [''12-02-2020.csv'' \<mapsto> report_02],
                extracted_cache = [''extracted-12-02-2020.json'' \<mapsto> aggregate_02],
                requests = [url_02], lookups = [''12-02-2020'']\<rparr>"

text \<open>The state after the report of 3 December has been fetched and extracted as well.\<close>

definition state_03 :: state where
  "state_03 = state_02\<lparr>source_cache := (source_cache state_02)(''12-03-2020.csv'' \<mapsto> report_03),
       extracted_cache := (extracted_cache state_02)(''extracted-12-03-2020.json'' \<mapsto> aggregate_03),
       requests := requests state_02 @ [url_03],
       lookups := lookups state_02 @ [''12-03-2020'']\<rparr>"

text \<open>The state after all three reports have been fetched and extracted.\<close>

definition state_04 :: state where
  "state_04 = state_03\<lparr>source_cache := (source_cache state_03)(''12-04-2020.csv'' \<mapsto> report_04),
       extracted_cache := (extracted_cache state_03)(''extracted-12-04-2020.json'' \<mapsto> aggregate_04),
       requests := requests state_03 @ [url_04],
       lookups := lookups state_03 @ [''12-04-2020'']\<rparr>"





section \<open>Properties\<close>

subsection \<open>Aggregation of the rows\<close>

lemma upt4: "[0..<number_of_field] = [0, 1, 2, 3]"
  by (simp add: number_of_field_def upt_rec)

lemma row_values_length: "row_values e = Some vs \<Longrightarrow> length vs = 4"
  by (auto simp: row_values_def split: if_splits sum.splits)

lemma add_fields_iff:
  "add_fields [0..<number_of_field] e t = Inr t' \<longleftrightarrow>
     (4 \<le> length t \<and> (\<exists>vs. row_values e = Some vs \<and> t' = add4 t vs))"
  unfolding upt4
  by (auto simp: row_values_def add4_def starting_index_def split: sum.splits if_splits)

lemma slice_full:
  "11 \<le> length e \<Longrightarrow> take number_of_field (drop starting_index e) = [e ! 7, e ! 8, e ! 9, e ! 10]"
  by (auto simp: number_of_field_def starting_index_def list_eq_iff_nth_eq nth_Cons split: nat.splits)

lemma map_int_length: "map_int xs = Inr t \<Longrightarrow> length t = length xs"
  by (induction xs arbitrary: t) (auto split: sum.splits)

lemma add_entry_outcome: "outcome (add_entry row data) = map_step row (Some (map_of data))"
  by (auto simp: outcome_def add_entry_def map_step_def tally_step_def Let_def update_conv'
           split: option.splits sum.splits)

lemma fold_map_step_None: "fold map_step rows None = None"
  by (induction rows) (auto simp: map_step_def)

lemma aggregate_outcome:
  "outcome (aggregate_rows rows data) = fold map_step rows (Some (map_of data))"
proof (induction rows arbitrary: data)
  case Nil
  show ?case by (simp add: outcome_def)
next
  case (Cons r rows)
  show ?case
  proof (cases "add_entry r data")
    case (Inl e)
    then have "map_step r (Some (map_of data)) = None"
      using add_entry_outcome [of r data] by (simp add: outcome_def)
    with Inl show ?thesis by (simp add: fold_map_step_None outcome_def)
  next
    case (Inr d)
    then have "map_step r (Some (map_of data)) = Some (map_of d)"
      using add_entry_outcome [of r data] by (simp add: outcome_def)
    with Inr Cons.IH [of d] show ?thesis by simp
  qed
qed

lemma tally_step_Some:
  "tally_step e (Some t) = (if 4 \<le> length t then map_option (add4 t) (row_values e) else None)"
proof (cases "add_fields [0..<number_of_field] e t")
  case (Inl err)
  have "\<not> (4 \<le> length t \<and> row_values e = Some vs)" for vs
    using Inl add_fields_iff [of e t "add4 t vs"] by auto
  then have "\<not> 4 \<le> length t \<or> row_values e = None"
    by (cases "row_values e") auto
  with Inl show ?thesis by (auto simp: tally_step_def)
next
  case (Inr t')
  then show ?thesis using add_fields_iff [of e t t'] by (auto simp: tally_step_def)
qed

lemma tally_step_None:
  "(case tally_step e None of None \<Rightarrow> None
    | Some t \<Rightarrow> if 4 \<le> length t then Some t else None) = row_values e"
proof (cases "11 \<le> length e")
  case True
  then show ?thesis
    by (auto simp: tally_step_def slice_full row_values_def split: sum.splits dest: map_int_length)
next
  case False
  then have rv: "row_values e = None" by (simp add: row_values_def)
  have "length t < 4" if "map_int (take number_of_field (drop starting_index e)) = Inr t" for t
    using map_int_length [OF that] False by (simp add: number_of_field_def starting_index_def)
  then show ?thesis
    unfolding rv tally_step_def by (auto split: sum.splits)
qed

lemma length_add4: "length (add4 t vs) = length t"
  by (simp add: add4_def)

lemma nth_add4:
  "i < length t \<Longrightarrow> add4 t vs ! i = (if i < 4 then t ! i + vs ! i else t ! i)"
proof -
  assume len: "i < length t"
  consider "i = 0" | "i = 1" | "i = 2" | "i = 3" | "4 \<le> i" by linarith
  then show ?thesis
    using len by cases (simp_all add: add4_def)
qed

lemma add4_commute: "add4 (add4 t a) b = add4 (add4 t b) a"
  by (rule nth_equalityI) (simp_all add: length_add4 nth_add4)

lemma add4_sym: "length a = 4 \<Longrightarrow> length b = 4 \<Longrightarrow> add4 a b = add4 b a"
  by (rule nth_equalityI) (simp_all add: length_add4 nth_add4)

lemma tally_twice_None:
  "Option.bind (tally_step e2 None) (\<lambda>t. tally_step e1 (Some t)) =
   Option.bind (row_values e2) (\<lambda>v2. map_option (add4 v2) (row_values e1))"
proof (cases "tally_step e2 None")
  case None
  then have "row_values e2 = None" using tally_step_None [of e2] by simp
  with None show ?thesis by simp
next
  case (Some t)
  show ?thesis
  proof (cases "4 \<le> length t")
    case True
    then have "row_values e2 = Some t" using tally_step_None [of e2] Some by simp
    with Some True show ?thesis by (simp add: tally_step_Some)
  next
    case False
    then have "row_values e2 = None" using tally_step_None [of e2] Some by simp
    with Some False show ?thesis by (simp add: tally_step_Some)
  qed
qed

lemma tally_step_commute:
  "Option.bind (tally_step e2 x) (\<lambda>t. tally_step e1 (Some t)) =
   Option.bind (tally_step e1 x) (\<lambda>t. tally_step e2 (Some t))"
proof (cases x)
  case None
  have "Option.bind (row_values e2) (\<lambda>v2. map_option (add4 v2) (row_values e1)) =
        Option.bind (row_values e1) (\<lambda>v1. map_option (add4 v1) (row_values e2))"
    by (cases "row_values e1"; cases "row_values e2")
       (auto dest!: row_values_length intro: add4_sym)
  with None show ?thesis by (simp add: tally_twice_None)
next
  case (Some t)
  then show ?thesis
    by (cases "row_values e1"; cases "row_values e2")
       (auto simp: tally_step_Some length_add4 add4_commute)
qed

lemma map_step_commute: "map_step r1 (map_step r2 s) = map_step r2 (map_step r1 s)"
proof (cases s)
  case None
  then show ?thesis by (simp add: map_step_def)
next
  case (Some m)
  define e1 where "e1 = normalise_entry r1"
  define e2 where "e2 = normalise_entry r2"
  show ?thesis
  proof (cases "length e1 \<le> 3 \<or> length e2 \<le> 3")
    case True
    then show ?thesis using Some
      by (auto simp: map_step_def Let_def e1_def e2_def split: option.splits)
  next
    case False
    show ?thesis
    proof (cases "e1 ! 3 = e2 ! 3")
      case True
      have "map_step r1 (map_step r2 s) =
            map_option (\<lambda>t. m(e1 ! 3 \<mapsto> t))
              (Option.bind (tally_step e2 (m (e1 ! 3))) (\<lambda>t. tally_step e1 (Some t)))"
        using Some False True
        by (auto simp: map_step_def Let_def e1_def [symmetric] e2_def [symmetric]
                 split: option.splits)
      moreover have "map_step r2 (map_step r1 s) =
            map_option (\<lambda>t. m(e1 ! 3 \<mapsto> t))
              (Option.bind (tally_step e1 (m (e1 ! 3))) (\<lambda>t. tally_step e2 (Some t)))"
        using Some False True
        by (auto simp: map_step_def Let_def e1_def [symmetric] e2_def [symmetric]
                 split: option.splits)
      ultimately show ?thesis by (simp add: tally_step_commute)
    next
      case neq: False
      then show ?thesis using Some False
        by (auto simp: map_step_def Let_def e1_def [symmetric] e2_def [symmetric] fun_upd_twist
                 split: option.splits)
    qed
  qed
qed

lemma fold_map_step_perm:
  "mset rows = mset rows' \<Longrightarrow> fold map_step rows = fold map_step rows'"
  by (rule fold_multiset_equiv) (auto simp: fun_eq_iff map_step_commute)

lemma map_step_None: "map_step r None = None"
  by (simp add: map_step_def)

lemma row_values_fields:
  "row_values (normalise_entry r) = Some vs \<Longrightarrow>
     vs = [field_int 7 r, field_int 8 r, field_int 9 r, field_int 10 r]"
  by (auto simp: row_values_def field_int_def split: if_splits sum.splits)

lemma tally_step_first:
  assumes "tally_step e None = Some t" and "11 \<le> length e"
  shows "row_values e = Some t"
proof -
  have "length t = 4"
    using assms map_int_length [of "take number_of_field (drop starting_index e)" t]
    by (auto simp: tally_step_def number_of_field_def starting_index_def split: sum.splits)
  then show ?thesis using tally_step_None [of e] assms by simp
qed

lemma row_tally_first: "row_tally r = tally_step (normalise_entry r) None"
  by (simp add: row_tally_def tally_step_def)

lemma fold_map_step_expected:
  assumes "fold map_step rows (Some Map.empty) = Some m"
  shows "m c = expected_tally c rows \<and> (rows_of c rows \<noteq> [] \<longrightarrow> m c \<noteq> None)"
  using assms
proof (induction rows arbitrary: m rule: rev_induct)
  case Nil
  then show ?case by (auto simp: expected_tally_def rows_of_def)
next
  case (snoc r rows)
  have "map_step r (fold map_step rows (Some Map.empty)) = Some m"
    using snoc.prems by simp
  then obtain m0 where m0: "fold map_step rows (Some Map.empty) = Some m0"
    and step: "map_step r (Some m0) = Some m"
    by (cases "fold map_step rows (Some Map.empty)") (simp_all add: map_step_None)
  have ih: "m0 c = expected_tally c rows" and ih': "rows_of c rows \<noteq> [] \<longrightarrow> m0 c \<noteq> None"
    using snoc.IH [OF m0] by blast+
  define e where "e = normalise_entry r"
  from step obtain t where t: "tally_step e (m0 (e ! 3)) = Some t" and m: "m = m0(e ! 3 \<mapsto> t)"
    by (auto simp: map_step_def Let_def e_def [symmetric] split: if_splits option.splits)
  show ?case
  proof (cases "country_of r = c")
    case False
    then have same: "rows_of c (rows @ [r]) = rows_of c rows"
      "country_tally c (rows @ [r]) = country_tally c rows"
      by (simp_all add: rows_of_def country_tally_def field_sum_def)
    from False have "e ! 3 \<noteq> c" by (simp add: country_of_def e_def)
    moreover have "expected_tally c (rows @ [r]) = expected_tally c rows"
      unfolding expected_tally_def same by (rule refl)
    ultimately show ?thesis using ih ih' m same(1) by simp
  next
    case True
    then have c: "e ! 3 = c" by (simp add: country_of_def e_def)
    have app: "rows_of c (rows @ [r]) = rows_of c rows @ [r]"
      using True by (simp add: rows_of_def)
    have fields: "vs = [field_int 7 r, field_int 8 r, field_int 9 r, field_int 10 r]"
      if "row_values e = Some vs" for vs
      using that unfolding e_def by (rule row_values_fields)
    show ?thesis
    proof (cases "rows_of c rows")
      case Nil
      with ih have "m0 c = None" by (simp add: expected_tally_def)
      with t c have "row_tally r = Some t" by (simp add: row_tally_first e_def)
      then show ?thesis using m c app Nil by (simp add: expected_tally_def)
    next
      case (Cons r1 rest)
      have r1: "country_of r1 = c" "rows_of c [r1] = [r1]"
        using Cons unfolding rows_of_def by (auto simp: filter_eq_Cons_iff)
      have "m0 c = Some (country_tally c rows)"
      proof (cases rest)
        case (Cons r2 rest')
        with \<open>rows_of c rows = r1 # rest\<close> ih show ?thesis by (simp add: expected_tally_def)
      next
        case Nil
        with \<open>rows_of c rows = r1 # rest\<close> ih have one: "m0 c = row_tally r1"
          by (simp add: expected_tally_def)
        moreover have "m0 c \<noteq> None" using ih' \<open>rows_of c rows = r1 # rest\<close> by simp
        ultimately obtain t1 where t1: "row_tally r1 = Some t1" "tally_step e (Some t1) = Some t"
          using t c by (cases "row_tally r1") simp_all
        then have "4 \<le> length t1" by (auto simp: tally_step_Some split: if_splits)
        with t1(1) have "row_values (normalise_entry r1) = Some t1"
          using tally_step_None [of "normalise_entry r1"] by (simp add: row_tally_first)
        then have "t1 = [field_int 7 r1, field_int 8 r1, field_int 9 r1, field_int 10 r1]"
          by (rule row_values_fields)
        then have "t1 = country_tally c rows"
          using \<open>rows_of c rows = r1 # rest\<close> Nil
          by (simp add: country_tally_def field_sum_def)
        with one t1(1) show ?thesis by simp
      qed
      with t c have "tally_step e (Some (country_tally c rows)) = Some t" by simp
      then obtain vs where vs: "row_values e = Some vs" and t': "t = add4 (country_tally c rows) vs"
        by (auto simp: tally_step_Some split: if_splits)
      from t' fields [OF vs] have "t = country_tally c (rows @ [r])"
        using True by (simp add: add4_def country_tally_def field_sum_def rows_of_def)
      then show ?thesis using m c app Cons by (cases rest) (simp_all add: expected_tally_def)
    qed
  qed
qed

lemma expected_tally_full:
  assumes "\<forall>r\<in>set rows. country_of r = c \<longrightarrow> 11 \<le> length r"
    and "expected_tally c rows = Some t"
  shows "t = country_tally c rows"
proof (cases "rows_of c rows")
  case Nil
  with assms(2) show ?thesis by (simp add: expected_tally_def)
next
  case (Cons r rest)
  show ?thesis
  proof (cases rest)
    case (Cons r' rest')
    with \<open>rows_of c rows = r # rest\<close> assms(2) show ?thesis by (simp add: expected_tally_def)
  next
    case Nil
    with \<open>rows_of c rows = r # rest\<close> have one: "rows_of c rows = [r]" by simp
    then have "r \<in> set (rows_of c rows)" by simp
    then have "r \<in> set rows" "country_of r = c" by (simp_all add: rows_of_def)
    with assms(1) have long: "11 \<le> length (normalise_entry r)" by (simp add: normalise_entry_def)
    from one assms(2) have "tally_step (normalise_entry r) None = Some t"
      by (simp add: expected_tally_def row_tally_first)
    then have "row_values (normalise_entry r) = Some t" using long by (rule tally_step_first)
    then have "t = [field_int 7 r, field_int 8 r, field_int 9 r, field_int 10 r]"
      by (rule row_values_fields)
    then show ?thesis using one by (simp add: country_tally_def field_sum_def)
  qed
qed

lemma add_entry_distinct:
  "distinct (map fst data) \<Longrightarrow> add_entry row data = Inr data' \<Longrightarrow> distinct (map fst data')"
  by (auto simp: add_entry_def Let_def distinct_update split: if_splits option.splits sum.splits)

lemma aggregate_rows_distinct:
  "distinct (map fst data) \<Longrightarrow> aggregate_rows rows data = Inr data' \<Longrightarrow> distinct (map fst data')"
  by (induction rows arbitrary: data) (auto split: sum.splits dest: add_entry_distinct)

lemma extract_aggregating:
  "aggregating cache_file force st \<Longrightarrow>
   extract_source_data (header # rows) cache_file force st = (Inr data, rest, st') \<Longrightarrow>
   aggregate_rows rows [] = Inr data"
  by (auto simp: extract_source_data_def aggregating_def split: if_splits option.splits sum.splits)

text \<open>
  Claim C1. When \<^verbatim>\<open>extract_source_data\<close> aggregates (no cached aggregate is returned) and
  returns, the dictionary has distinct keys and holds for every country what
  \<open>expected_tally\<close> says: nothing for a country without rows, and for a country \<open>c\<close> with
  rows, all of which have the eleven leading fields, the list of the four sums, over the rows
  whose field 3 is \<open>c\<close>, of the integers in the fields 7, 8, 9 and 10. Every field is read
  after the empty fields have been replaced by \<^verbatim>\<open>"0"\<close>, the field 3 included. The
  report with two rows for \<^verbatim>\<open>X\<close>, (1,2,3,4) and (5,empty,empty,1), gives \<^verbatim>\<open>X\<close> the
  tally (6,2,3,5).
\<close>

theorem extract_sums_rows:
  assumes "extract_source_data (header # rows) cache_file force st = (Inr data, rest, st')"
    and "aggregating cache_file force st"
  shows "distinct (map fst data) \<and>
         map_of data c = expected_tally c rows \<and>
         (rows_of c rows = [] \<longrightarrow> map_of data c = None) \<and>
         (rows_of c rows \<noteq> [] \<longrightarrow> (\<forall>r\<in>set rows. country_of r = c \<longrightarrow> 11 \<le> length r) \<longrightarrow>
            map_of data c = Some (country_tally c rows))"
proof -
  have agg: "aggregate_rows rows [] = Inr data"
    using assms(2) assms(1) by (rule extract_aggregating)
  then have "fold map_step rows (Some Map.empty) = Some (map_of data)"
    using aggregate_outcome [of rows "[]"] by (simp add: outcome_def)
  then have e: "map_of data c = expected_tally c rows"
    and ne: "rows_of c rows \<noteq> [] \<longrightarrow> map_of data c \<noteq> None"
    using fold_map_step_expected [of rows "map_of data" c] by blast+
  have none: "rows_of c rows = [] \<longrightarrow> map_of data c = None"
    using e by (simp add: expected_tally_def)
  have full: "map_of data c = Some (country_tally c rows)"
    if "rows_of c rows \<noteq> []" "\<forall>r\<in>set rows. country_of r = c \<longrightarrow> 11 \<le> length r"
  proof -
    from that(1) ne obtain t where t: "map_of data c = Some t" by auto
    with e have "expected_tally c rows = Some t" by simp
    from expected_tally_full [OF that(2) this] t show ?thesis by simp
  qed
  have "distinct (map fst data)"
    using aggregate_rows_distinct [OF _ agg] by simp
  with e none full show ?thesis by blast
qed

lemma sample_aggregate: "aggregate_rows sample_rows [] = Inr [(''X'', [6, 2, 3, 5])]"
  unfolding sample_rows_def by code_simp

theorem extract_sums_rows_witness:
  "extract_source_data (sample_header # sample_rows) None False empty_state
     = (Inr [(''X'', [6, 2, 3, 5])], sample_rows, empty_state) \<and>
   rows_of ''X'' sample_rows \<noteq> [] \<and>
   map_of [(''X'', [6, 2, 3, 5])] ''X'' = Some (country_tally ''X'' sample_rows) \<and>
   country_tally ''X'' sample_rows = [6, 2, 3, 5]"
proof -
  have run: "extract_source_data (sample_header # sample_rows) None False empty_state
     = (Inr [(''X'', [6, 2, 3, 5])], sample_rows, empty_state)"
    by (simp add: extract_source_data_def sample_aggregate)
  have path: "aggregating None False empty_state"
    by (simp add: aggregating_def)
  have wide: "\<forall>r\<in>set sample_rows. country_of r = ''X'' \<longrightarrow> 11 \<le> length r"
    by (simp add: sample_rows_def)
  have some: "rows_of ''X'' sample_rows \<noteq> []"
    by (simp add: rows_of_def sample_rows_def country_of_def normalise_entry_def)
  from extract_sums_rows [OF run path, of "''X''"] some wide
  have "map_of [(''X'', [6, 2, 3, 5])] ''X'' = Some (country_tally ''X'' sample_rows)"
    by blast
  with run some show ?thesis by simp
qed

text \<open>
  Claim C7. If \<^verbatim>\<open>extract_source_data\<close> returns an aggregate for a report, it returns for
  every report with the same header and the same rows in another order an aggregate with
  the same associations of countries and tallies.
\<close>

theorem extract_order_independent:
  assumes "mset rows = mset rows'"
    and "extract_source_data (header # rows) cache_file force st = (Inr data, rest, st1)"
  shows "\<exists>data' st2. extract_source_data (header # rows') cache_file force st = (Inr data', rows', st2)
           \<and> map_of data' = map_of data \<and> set data' = set data"
proof (cases "aggregating cache_file force st")
  case False
  then show ?thesis using assms(2)
    by (auto simp: extract_source_data_def aggregating_def split: option.splits)
next
  case True
  then have agg: "aggregate_rows rows [] = Inr data"
    using assms(2) by (rule extract_aggregating)
  have "outcome (aggregate_rows rows' []) = outcome (aggregate_rows rows [])"
    using fold_map_step_perm [OF assms(1)] by (simp add: aggregate_outcome)
  then obtain data' where agg': "aggregate_rows rows' [] = Inr data'"
    and same: "map_of data' = map_of data"
    using agg by (cases "aggregate_rows rows' []") (auto simp: outcome_def)
  have "distinct (map fst data)" "distinct (map fst data')"
    using aggregate_rows_distinct [OF _ agg] aggregate_rows_distinct [OF _ agg'] by simp_all
  then have "set data' = set data"
    using same by (simp add: map_of_inject_set)
  then show ?thesis using True agg' same
    by (auto simp: extract_source_data_def aggregating_def split: option.splits)
qed

lemma mixed_aggregate:
  "aggregate_rows mixed_rows [] = Inr [(''X'', [6, 2, 3, 5]), (''Y'', [7, 0, 1, 6])]"
  unfolding mixed_rows_def by code_simp

theorem extract_order_independent_witness:
  "mset mixed_rows = mset (rev mixed_rows) \<and>
   (\<exists>data' st2. extract_source_data (sample_header # rev mixed_rows) None False empty_state
        = (Inr data', rev mixed_rows, st2)
      \<and> map_of data' = map_of [(''X'', [6, 2, 3, 5]), (''Y'', [7, 0, 1, 6])]
      \<and> set data' = set [(''X'', [6, 2, 3, 5]), (''Y'', [7, 0, 1, 6])])"
proof -
  have perm: "mset mixed_rows = mset (rev mixed_rows)" by simp
  have run: "extract_source_data (sample_header # mixed_rows) None False empty_state
     = (Inr [(''X'', [6, 2, 3, 5]), (''Y'', [7, 0, 1, 6])], mixed_rows, empty_state)"
    by (simp add: extract_source_data_def mixed_aggregate)
  from extract_order_independent [OF perm run] perm show ?thesis by simp
qed

text \<open>
  Claim C1. When \<^verbatim>\<open>extract_source_data\<close> aggregates (no cached aggregate is returned) and
  returns, the dictionary has distinct keys and holds for every country what
  \<open>expected_tally\<close> says: nothing for a country without rows, and for a country \<open>c\<close> with
  rows, all of which have the eleven leading fields, the list of the four sums, over the rows
  whose field 3 is \<open>c\<close>, of the integers in the fields 7, 8, 9 and 10. Every field is read
  after the empty fields have been replaced by \<^verbatim>\<open>"0"\<close>, the field 3 included. The
  report with two rows for \<^verbatim>\<open>X\<close>, (1,2,3,4) and (5,empty,empty,1), gives \<^verbatim>\<open>X\<close> the
  tally (6,2,3,5).
\<close>

theorem extract_pops_header:
  "fst (snd (extract_source_data (header # rows) cache_file force st)) = rows \<and>
   (extracted_cache st f = Some cached \<longrightarrow>
      extract_source_data (header # rows) (Some f) False st = (Inr cached, rows, st)) \<and>
   fst (snd (extract_source_data
               (fst (snd (extract_source_data (header # row # rows) cache_file force st)))
               cache_file' force' st')) = rows"
  by (auto simp: extract_source_data_def split: option.splits sum.splits)

theorem extract_pops_header_witness:
  "extracted_cache cached_state ''extracted-12-02-2020.json'' = Some [(''X'', [1, 2, 3, 4])] \<and>
   extract_source_data (sample_header # mixed_rows) (Some ''extracted-12-02-2020.json'') False cached_state
     = (Inr [(''X'', [1, 2, 3, 4])], mixed_rows, cached_state)"
proof -
  have hit: "extracted_cache cached_state ''extracted-12-02-2020.json'' = Some [(''X'', [1, 2, 3, 4])]"
    by (simp add: cached_state_def)
  from extract_pops_header [of sample_header mixed_rows "Some ''extracted-12-02-2020.json''" False
      cached_state "''extracted-12-02-2020.json''" "[(''X'', [1, 2, 3, 4])]"] hit
  show ?thesis by simp
qed


subsection \<open>Normalisation of dates\<close>

lemma digit_char_val: "n < 10 \<Longrightarrow> is_digit (digit_char n) \<and> digit_val (digit_char n) = n"
  by (simp add: is_digit_def digit_val_def digit_char_def)

lemma dec_four:
  assumes "1000 \<le> y" and "y \<le> 9999"
  shows "dec y = [digit_char (y div 10 div 10 div 10), digit_char (y div 10 div 10 mod 10),
                  digit_char (y div 10 mod 10), digit_char (y mod 10)]"
proof -
  have r: "\<not> y < 10" "\<not> y div 10 < 10" "\<not> y div 10 div 10 < 10" "y div 10 div 10 div 10 < 10"
    using assms by linarith+
  have a: "dec y = dec (y div 10) @ [digit_char (y mod 10)]"
    using r by (subst dec.simps) simp
  have b: "dec (y div 10) = dec (y div 10 div 10) @ [digit_char (y div 10 mod 10)]"
    using r by (subst dec.simps) simp
  have c: "dec (y div 10 div 10) = dec (y div 10 div 10 div 10) @ [digit_char (y div 10 div 10 mod 10)]"
    using r by (subst dec.simps) simp
  have d: "dec (y div 10 div 10 div 10) = [digit_char (y div 10 div 10 div 10)]"
    using r by (subst dec.simps) simp
  show ?thesis by (simp add: a b c d)
qed

lemma four_digits:
  "1000 * (y div 10 div 10 div 10) + 100 * (y div 10 div 10 mod 10) + 10 * (y div 10 mod 10)
     + y mod 10 = (y::nat)"
proof -
  define q1 where "q1 = y div 10"
  define q2 where "q2 = q1 div 10"
  have "y = 10 * q1 + y mod 10" "q1 = 10 * q2 + q1 mod 10" "q2 = 10 * (q2 div 10) + q2 mod 10"
    by (simp_all add: q1_def q2_def)
  then show ?thesis unfolding q1_def [symmetric] q2_def [symmetric] by linarith
qed

lemma numeric_tokens_strftime:
  assumes "m < 100" and "d < 100" and "1000 \<le> y" and "y \<le> 9999"
  shows "numeric_tokens (strftime_fields (y, m, d)) = Some (m, d, y)"
proof -
  have dm: "m div 10 < 10" "m mod 10 < 10" "d div 10 < 10" "d mod 10 < 10"
    using assms by simp_all
  have dy: "y div 10 div 10 div 10 < 10" "y div 10 div 10 mod 10 < 10" "y div 10 mod 10 < 10" "y mod 10 < 10"
    using assms by linarith+
  define s where "s = strftime_fields (y, m, d)"
  have s: "s = [digit_char (m div 10), digit_char (m mod 10), CHR ''-'',
                digit_char (d div 10), digit_char (d mod 10), CHR ''-'',
                digit_char (y div 10 div 10 div 10), digit_char (y div 10 div 10 mod 10),
                digit_char (y div 10 mod 10), digit_char (y mod 10)]"
    by (simp add: s_def strftime_fields_def pad2_def dec_four [OF assms(3,4)])
  have nth: "s ! 0 = digit_char (m div 10)" "s ! 1 = digit_char (m mod 10)" "s ! 2 = CHR ''-''"
    "s ! 3 = digit_char (d div 10)" "s ! 4 = digit_char (d mod 10)" "s ! 5 = CHR ''-''"
    "s ! 6 = digit_char (y div 10 div 10 div 10)" "s ! 7 = digit_char (y div 10 div 10 mod 10)"
    "s ! 8 = digit_char (y div 10 mod 10)" "s ! 9 = digit_char (y mod 10)" "length s = 10"
    by (simp_all add: s)
  have "numeric_tokens s = Some (m, d, y)"
    using dm dy four_digits [of y] nth by (simp add: numeric_tokens_def digit_char_val)
  then show ?thesis by (simp add: s_def)
qed

lemma month_table_bounds:
  "\<forall>m\<in>{1..12::nat}. 28 \<le> days_in_month_table (int m) \<and> days_in_month_table (int m) \<le> 31"
  by (simp add: atLeastAtMost_upt upt_rec days_in_month_table_def)

lemma days_in_month_bounds:
  assumes "1 \<le> m" and "m \<le> 12"
  shows "28 \<le> days_in_month y (int m) \<and> days_in_month y (int m) \<le> 31"
proof -
  have "m \<in> {1..12}" using assms by simp
  then have "28 \<le> days_in_month_table (int m) \<and> days_in_month_table (int m) \<le> 31"
    using month_table_bounds by blast
  then show ?thesis by (simp add: days_in_month_def)
qed

lemma valid_date_bounds:
  "valid_date (y, m, d) \<Longrightarrow> 1 \<le> m \<and> m \<le> 12 \<and> 1 \<le> d \<and> d \<le> 31 \<and> 1 \<le> y \<and> y \<le> 9999"
proof -
  assume v: "valid_date (y, m, d)"
  then have m: "1 \<le> m" "m \<le> 12" by (simp_all add: valid_date_def)
  have "days_in_month (int y) (int m) \<le> 31"
    using days_in_month_bounds [OF m] by simp
  with v show ?thesis by (simp add: valid_date_def)
qed

lemma valid_date_swap:
  assumes "valid_date (y, m, d)" and "d \<le> 12"
  shows "valid_date (y, d, m)"
proof -
  have b: "1 \<le> m" "m \<le> 12" "1 \<le> d" "1 \<le> y" "y \<le> 9999"
    using valid_date_bounds [OF assms(1)] by simp_all
  have "28 \<le> days_in_month (int y) (int d)"
    using days_in_month_bounds [OF b(3) assms(2)] by simp
  with b assms(2) show ?thesis by (simp add: valid_date_def)
qed

lemma normalise_datetime_normal_form:
  assumes "valid_date (y, m, d)" and "1000 \<le> y"
  shows "normalise_datetime other_formats (strftime_fields (y, m, d)) =
           Inr (if d \<le> 12 then strftime_fields (y, d, m) else strftime_fields (y, m, d))"
proof -
  have b: "1 \<le> m" "m \<le> 12" "1 \<le> d" "d \<le> 31" "y \<le> 9999"
    using valid_date_bounds [OF assms(1)] by simp_all
  have tok: "numeric_tokens (strftime_fields (y, m, d)) = Some (m, d, y)"
    using b assms(2) by (intro numeric_tokens_strftime) simp_all
  show ?thesis
  proof (cases "d \<le> 12")
    case True
    then have "resolve_ymd m d y = (y, d, m)" using b by (simp add: resolve_ymd_def)
    then show ?thesis using tok True valid_date_swap [OF assms(1) True]
      by (simp add: normalise_datetime_def dateutil_parse_def)
  next
    case False
    then have "resolve_ymd m d y = (y, m, d)" using b by (simp add: resolve_ymd_def)
    then show ?thesis using tok False assms(1)
      by (simp add: normalise_datetime_def dateutil_parse_def)
  qed
qed

text \<open>
  Claim C2, as amended. Every text that \<^verbatim>\<open>normalise_datetime\<close> returns is the form
  \<^verbatim>\<open>MM-DD-YYYY\<close> of a date that exists, and for a year of four digits a second application
  reads it day first again: it returns \<^verbatim>\<open>DD-MM-YYYY\<close> when the day is at most 12 and the
  text itself otherwise. So the function is idempotent on the dates whose day is greater than
  12 or equal to the month, and on the others the second application swaps day and month.
\<close>

theorem normalise_datetime_twice:
  assumes "normalise_datetime other_formats date_string = Inr s"
  shows "\<exists>y m d. valid_date (y, m, d) \<and> s = strftime_fields (y, m, d) \<and>
           (1000 \<le> y \<longrightarrow>
              normalise_datetime other_formats s =
                Inr (if d \<le> 12 then strftime_fields (y, d, m) else s))"
proof -
  from assms obtain ymd where v: "valid_date ymd" and s: "s = strftime_fields ymd"
    by (auto simp: normalise_datetime_def dateutil_parse_def split: option.splits if_splits)
  obtain y m d where ymd: "ymd = (y, m, d)" by (cases ymd) auto
  have "1000 \<le> y \<longrightarrow> normalise_datetime other_formats s =
          Inr (if d \<le> 12 then strftime_fields (y, d, m) else s)"
    using normalise_datetime_normal_form [of y m d other_formats] v s ymd by simp
  with v s ymd show ?thesis by blast
qed

lemma normalise_christmas: "normalise_datetime no_other_formats ''25-12-2020'' = Inr ''12-25-2020''"
  by code_simp

theorem normalise_datetime_twice_witness:
  "normalise_datetime no_other_formats ''25-12-2020'' = Inr ''12-25-2020'' \<and>
   (\<exists>y m d. valid_date (y, m, d) \<and> ''12-25-2020'' = strftime_fields (y, m, d) \<and>
      (1000 \<le> y \<longrightarrow>
         normalise_datetime no_other_formats ''12-25-2020'' =
           Inr (if d \<le> 12 then strftime_fields (y, d, m) else ''12-25-2020'')))"
  using normalise_datetime_twice [OF normalise_christmas] normalise_christmas by simp

text \<open>
  Claim C2 as stated fails: the first of February 2020, written day first, is normalised to
  \<^verbatim>\<open>02-01-2020\<close>, and that text is normalised to \<^verbatim>\<open>01-02-2020\<close>.
\<close>

theorem normalise_datetime_not_idempotent:
  "normalise_datetime no_other_formats ''01-02-2020'' = Inr ''02-01-2020'' \<and>
   normalise_datetime no_other_formats ''02-01-2020'' = Inr ''01-02-2020'' \<and>
   normalise_datetime no_other_formats ''02-01-2020'' \<noteq> Inr ''02-01-2020''"
  by code_simp

subsection \<open>Fetching with a cache\<close>







lemma sample_urls:
  "create_source_url ''12-02-2020'' = Inr url_02"
  "create_source_url ''12-03-2020'' = Inr url_03"
  "create_source_url ''12-04-2020'' = Inr url_04"
  by code_simp+

lemma sample_names:
  "path_name url_02 = ''12-02-2020.csv''" "path_name url_03 = ''12-03-2020.csv''"
  "path_name url_04 = ''12-04-2020.csv''"
  "cache_filename url_02 = ''extracted-12-02-2020.json''"
  "cache_filename url_03 = ''extracted-12-03-2020.json''"
  "cache_filename url_04 = ''extracted-12-04-2020.json''"
  by code_simp+

lemma sample_matches:
  "re_match_date ''12-02-2020''" "re_match_date ''12-03-2020''" "re_match_date ''12-04-2020''"
  by code_simp+

lemma sample_extracts:
  "case plain_csv_reader (concat report_02) of Inl e \<Rightarrow> False
   | Inr parsed \<Rightarrow> parsed \<noteq> [] \<and> aggregate_rows (tl parsed) [] = Inr aggregate_02"
  "case plain_csv_reader (concat report_03) of Inl e \<Rightarrow> False
   | Inr parsed \<Rightarrow> parsed \<noteq> [] \<and> aggregate_rows (tl parsed) [] = Inr aggregate_03"
  "case plain_csv_reader (concat report_04) of Inl e \<Rightarrow> False
   | Inr parsed \<Rightarrow> parsed \<noteq> [] \<and> aggregate_rows (tl parsed) [] = Inr aggregate_04"
  by code_simp+

lemma get_data_for_date_miss:
  assumes "re_match_date d" and "create_source_url d = Inr url"
    and "source_cache st (path_name url) = None" and "urlopen E url = Inr content"
    and "csv_reader E (concat content) = Inr parsed" and "parsed \<noteq> []"
    and "extracted_cache st (cache_filename url) = None"
    and "aggregate_rows (tl parsed) [] = Inr agg"
  shows "get_data_for_date E d False st =
           (Inr agg, st\<lparr>source_cache := (source_cache st)(path_name url \<mapsto> content),
                         extracted_cache := (extracted_cache st)(cache_filename url \<mapsto> agg),
                         requests := requests st @ [url],
                         lookups := lookups st @ [d]\<rparr>)"
proof -
  obtain h rows where parsed: "parsed = h # rows" using assms(6) by (cases parsed) auto
  show ?thesis
    using assms unfolding parsed
    by (simp add: get_data_for_date_def get_source_file_def parse_source_data_def
        extract_source_data_def Let_def)
qed

lemma sample_parsed:
  "\<exists>parsed. plain_csv_reader (concat report_02) = Inr parsed \<and> parsed \<noteq> []
      \<and> aggregate_rows (tl parsed) [] = Inr aggregate_02"
  "\<exists>parsed. plain_csv_reader (concat report_03) = Inr parsed \<and> parsed \<noteq> []
      \<and> aggregate_rows (tl parsed) [] = Inr aggregate_03"
  "\<exists>parsed. plain_csv_reader (concat report_04) = Inr parsed \<and> parsed \<noteq> []
      \<and> aggregate_rows (tl parsed) [] = Inr aggregate_04"
  using sample_extracts by (auto split: sum.splits)

lemma sample_first_day:
  "get_data_for_date sample_env ''12-02-2020'' False empty_state = (Inr aggregate_02, state_02)"
proof -
  obtain parsed where p: "plain_csv_reader (concat report_02) = Inr parsed" "parsed \<noteq> []"
    "aggregate_rows (tl parsed) [] = Inr aggregate_02"
    using sample_parsed(1) by blast
  have "get_data_for_date sample_env ''12-02-2020'' False empty_state =
          (Inr aggregate_02,
           empty_state\<lparr>source_cache := (source_cache empty_state)(path_name url_02 \<mapsto> report_02),
              extracted_cache := (extracted_cache empty_state)(cache_filename url_02 \<mapsto> aggregate_02),
              requests := requests empty_state @ [url_02],
              lookups := lookups empty_state @ [''12-02-2020'']\<rparr>)"
    using p
    by (intro get_data_for_date_miss sample_matches sample_urls)
       (simp_all add: empty_state_def sample_env_def sample_web_def sample_names)
  then show ?thesis by (simp add: empty_state_def state_02_def sample_names)
qed


subsection \<open>Queries over a range of dates\<close>

lemma toordinal_add_days: "toordinal (t + timedelta_days i) = toordinal t + i"
  by (simp add: toordinal_def timedelta_days_def day_us_def)

lemma toordinal_origin: "toordinal origin_date = 737761"
  by (simp add: toordinal_def origin_date_def day_us_def)

lemma td_days_from_origin: "td_days (t - origin_date) = toordinal t - 737761"
proof -
  have "day_us \<noteq> 0" by (simp add: day_us_def)
  then have "(t + day_us * (- 737761)) div day_us = - 737761 + t div day_us"
    by (rule div_mult_self2)
  then show ?thesis by (simp add: td_days_def toordinal_def origin_date_def mult.commute)
qed

lemma strftime_ordinal: "strftime_mdY t = date_string_of_ordinal (toordinal t)"
  by (simp add: strftime_mdY_def date_string_of_ordinal_def toordinal_def day_us_def)

lemma country_loop_append:
  "country_loop E c s (pre @ rest) result st =
     (case country_loop E c s pre result st of
        (Inl e, st') \<Rightarrow> (Inl e, st')
      | (Inr result', st') \<Rightarrow> country_loop E c s rest result' st')"
  by (induction pre arbitrary: result st)
     (auto simp: Let_def split: prod.splits sum.splits option.splits)

lemma get_data_for_date_lookups:
  "get_data_for_date E d force st = (r, st') \<Longrightarrow> lookups st' = lookups st @ [d]"
  by (auto simp: get_data_for_date_def get_source_file_def extract_source_data_def Let_def
           split: if_splits sum.splits prod.splits option.splits list.splits)

lemma country_loop_lookups:
  "country_loop E c s is result st = (Inr result', st') \<Longrightarrow>
   lookups st' = lookups st @ map (\<lambda>i. strftime_mdY (s + timedelta_days i)) is"
proof (induction "is" arbitrary: result st)
  case Nil
  then show ?case by simp
next
  case (Cons i "is")
  from Cons.prems obtain data st1 t where
    g: "get_data_for_date E (strftime_mdY (s + timedelta_days i)) False st = (Inr data, st1)"
    and rest: "country_loop E c s is (AList.update (strftime_mdY (s + timedelta_days i)) t result) st1
                = (Inr result', st')"
    by (auto simp: Let_def split: prod.splits sum.splits option.splits)
  from Cons.IH [OF rest] get_data_for_date_lookups [OF g] show ?case by simp
qed

lemma get_country_data_loop:
  "get_country_data E c start_date end_date st =
     country_loop E c (effective_start start_date)
       [0..td_days (effective_end E end_date - effective_start start_date)] [] st"
  by (simp add: get_country_data_def effective_start_def effective_end_def Let_def)

text \<open>
  Claim C4. \<^verbatim>\<open>get_country_data\<close> visits the days in ascending order. If the days before the
  \<open>k\<close>-th day of the clamped range have been collected and the aggregate of the \<open>k\<close>-th
  day has no entry for the country, the call raises \<^verbatim>\<open>ValueError(country)\<close> there: the
  state is the one the lookup of that day has left, and the lookups made are those of the
  days 0 to \<open>k\<close>, whatever the later days hold. In the example \<^verbatim>\<open>Y\<close> is present on the
  first and on the third day and missing on the second.
\<close>

theorem get_country_data_first_missing:
  assumes "0 \<le> k" and "k \<le> td_days (effective_end E end_date - effective_start start_date)"
    and "country_loop E country (effective_start start_date) [0..k - 1] [] st = (Inr result, st1)"
    and "get_data_for_date E (strftime_mdY (effective_start start_date + timedelta_days k)) False st1
           = (Inr data, st2)"
    and "map_of data country = None"
  shows "get_country_data E country start_date end_date st = (Inl (ValueError country), st2) \<and>
         lookups st2 = lookups st @
           map (\<lambda>i. strftime_mdY (effective_start start_date + timedelta_days i)) [0..k]"
proof -
  define s where "s = effective_start start_date"
  define n where "n = td_days (effective_end E end_date - s)"
  have split: "[0..n] = [0..k - 1] @ k # [k + 1..n]"
    by (rule upto_split3) (use assms(1,2) in \<open>simp_all add: n_def s_def\<close>)
  have "country_loop E country s [0..n] [] st = (Inl (ValueError country), st2)"
    using assms(3,4,5) unfolding split country_loop_append s_def [symmetric]
    by (simp add: Let_def)
  moreover have "lookups st2 = lookups st @ map (\<lambda>i. strftime_mdY (s + timedelta_days i)) [0..k]"
  proof -
    have "[0..k] = [0..k - 1] @ [k]" using assms(1) by (simp add: upto_rec2)
    then show ?thesis
      using country_loop_lookups [OF assms(3)] get_data_for_date_lookups [OF assms(4)]
      by (simp add: s_def)
  qed
  ultimately show ?thesis by (simp add: get_country_data_loop s_def n_def)
qed

lemma sample_date_strings:
  "strftime_mdY origin_date = ''12-02-2020''"
  "strftime_mdY (origin_date + timedelta_days 1) = ''12-03-2020''"
  "strftime_mdY (origin_date + timedelta_days 2) = ''12-04-2020''"
  by code_simp+

lemma sample_second_day:
  "get_data_for_date sample_env ''12-03-2020'' False state_02 = (Inr aggregate_03, state_03)"
proof -
  obtain parsed where p: "plain_csv_reader (concat report_03) = Inr parsed" "parsed \<noteq> []"
    "aggregate_rows (tl parsed) [] = Inr aggregate_03"
    using sample_parsed(2) by blast
  have "get_data_for_date sample_env ''12-03-2020'' False state_02 =
          (Inr aggregate_03,
           state_02\<lparr>source_cache := (source_cache state_02)(path_name url_03 \<mapsto> report_03),
              extracted_cache := (extracted_cache state_02)(cache_filename url_03 \<mapsto> aggregate_03),
              requests := requests state_02 @ [url_03],
              lookups := lookups state_02 @ [''12-03-2020'']\<rparr>)"
    using p
    by (intro get_data_for_date_miss sample_matches sample_urls)
       (simp_all add: state_02_def sample_env_def sample_web_def sample_names)
  then show ?thesis by (simp add: state_03_def sample_names)
qed

lemma sample_span:
  "td_days (effective_end sample_env None - effective_start None) = 2"
  by (simp add: effective_end_def effective_start_def sample_env_def td_days_def
      timedelta_days_def day_us_def)

theorem get_country_data_first_missing_witness:
  "country_loop sample_env ''Y'' (effective_start None) [0..1 - 1] [] empty_state
     = (Inr [(''12-02-2020'', [7, 0, 1, 6])], state_02) \<and>
   get_data_for_date sample_env (strftime_mdY (effective_start None + timedelta_days 1)) False state_02
     = (Inr aggregate_03, state_03) \<and>
   map_of aggregate_03 ''Y'' = None \<and> map_of aggregate_04 ''Y'' = Some [8, 0, 1, 7] \<and>
   get_country_data sample_env ''Y'' None None empty_state = (Inl (ValueError ''Y''), state_03) \<and>
   lookups state_03 = [''12-02-2020'', ''12-03-2020'']"
proof -
  have start: "effective_start None = origin_date" by (simp add: effective_start_def)
  have first: "country_loop sample_env ''Y'' (effective_start None) [0..1 - 1] [] empty_state
     = (Inr [(''12-02-2020'', [7, 0, 1, 6])], state_02)"
    by (simp add: start upto_rec1 [of 0 0] timedelta_days_def sample_date_strings
        sample_first_day aggregate_02_def)
  have second: "get_data_for_date sample_env
      (strftime_mdY (effective_start None + timedelta_days 1)) False state_02
     = (Inr aggregate_03, state_03)"
    by (simp add: start sample_date_strings sample_second_day)
  have absent: "map_of aggregate_03 ''Y'' = None" by (simp add: aggregate_03_def)
  have later: "map_of aggregate_04 ''Y'' = Some [8, 0, 1, 7]" by (simp add: aggregate_04_def)
  have k: "(0::int) \<le> 1" "1 \<le> td_days (effective_end sample_env None - effective_start None)"
    by (simp_all add: sample_span)
  have logs: "lookups state_03 = [''12-02-2020'', ''12-03-2020'']"
    by (simp add: state_03_def state_02_def)
  from get_country_data_first_missing [OF k first second absent] first second absent later logs
  show ?thesis by simp
qed

subsection \<open>Clamping of the bounds\<close>

lemma map_add_upto: "map (\<lambda>i. a + i) [0..n] = [a..a + n]"
proof (cases "0 \<le> n")
  case False
  then show ?thesis by simp
next
  case True
  then show ?thesis
  proof (induction n rule: int_ge_induct)
    case base
    show ?case by simp
  next
    case (step i)
    have "[0..i + 1] = [0..i] @ [i + 1]" using step.hyps by (simp add: upto_rec2)
    moreover have "[a..a + (i + 1)] = [a..a + i] @ [a + i + 1]"
      using step.hyps by (simp add: upto_rec2 add.assoc)
    ultimately show ?case using step.IH by (simp add: add.assoc)
  qed
qed

lemma range_date_strings:
  "map (\<lambda>i. strftime_mdY (origin_date + timedelta_days i)) [0..toordinal t - toordinal origin_date]
     = map date_string_of_ordinal [toordinal origin_date..toordinal t]"
proof -
  have "map (\<lambda>i. strftime_mdY (origin_date + timedelta_days i)) [0..toordinal t - toordinal origin_date]
        = map date_string_of_ordinal
            (map (\<lambda>i. toordinal origin_date + i) [0..toordinal t - toordinal origin_date])"
    by (simp add: strftime_ordinal toordinal_add_days comp_def)
  then show ?thesis by (simp only: map_add_upto) simp
qed

lemma effective_idem:
  "effective_start (Some (effective_start s)) = effective_start s"
  "effective_end E (Some (effective_end E e)) = effective_end E e"
  by (auto simp: effective_start_def effective_end_def split: option.splits)

text \<open>
  Claim C5. \<^verbatim>\<open>get_country_data\<close> answers for the clamped bounds: the end is replaced by
  \<^verbatim>\<open>latest_date\<close> when it is absent or later, the start by \<^verbatim>\<open>origin_date\<close> when it is absent
  or earlier. With a start absent or before the origin and an end absent or after the latest
  date, the query is the loop from the origin over the days up to the day of
  \<^verbatim>\<open>latest_date\<close>, the dates of the loop are those of all the ordinals of that closed
  interval, and a call that returns has looked up every one of them, in ascending order.
\<close>

theorem get_country_data_clamps:
  "get_country_data E country start_date end_date st
     = get_country_data E country (Some (effective_start start_date))
         (Some (effective_end E end_date)) st \<and>
   (absent_or_before_origin start_date \<longrightarrow> absent_or_after_latest E end_date \<longrightarrow>
      effective_start start_date = origin_date \<and> effective_end E end_date = latest_date E \<and>
      get_country_data E country start_date end_date st
        = country_loop E country origin_date
            [0..toordinal (latest_date E) - toordinal origin_date] [] st \<and>
      map (\<lambda>i. strftime_mdY (origin_date + timedelta_days i))
          [0..toordinal (latest_date E) - toordinal origin_date]
        = map date_string_of_ordinal [toordinal origin_date..toordinal (latest_date E)] \<and>
      (\<forall>result st'. get_country_data E country start_date end_date st = (Inr result, st') \<longrightarrow>
         lookups st' = lookups st @
           map date_string_of_ordinal [toordinal origin_date..toordinal (latest_date E)]))"
proof (intro conjI impI allI)
  show "get_country_data E country start_date end_date st
     = get_country_data E country (Some (effective_start start_date))
         (Some (effective_end E end_date)) st"
    by (simp add: get_country_data_loop effective_idem)
next
  assume a: "absent_or_before_origin start_date" and b: "absent_or_after_latest E end_date"
  show s: "effective_start start_date = origin_date"
    using a by (auto simp: absent_or_before_origin_def effective_start_def split: option.splits)
  show e: "effective_end E end_date = latest_date E"
    using b by (auto simp: absent_or_after_latest_def effective_end_def split: option.splits)
  show loop: "get_country_data E country start_date end_date st
        = country_loop E country origin_date
            [0..toordinal (latest_date E) - toordinal origin_date] [] st"
    by (simp add: get_country_data_loop s e td_days_from_origin toordinal_origin)
  show "map (\<lambda>i. strftime_mdY (origin_date + timedelta_days i))
          [0..toordinal (latest_date E) - toordinal origin_date]
        = map date_string_of_ordinal [toordinal origin_date..toordinal (latest_date E)]"
    by (rule range_date_strings)
  fix result st'
  assume "get_country_data E country start_date end_date st = (Inr result, st')"
  then have "country_loop E country origin_date
            [0..toordinal (latest_date E) - toordinal origin_date] [] st = (Inr result, st')"
    by (simp add: loop)
  from country_loop_lookups [OF this]
  show "lookups st' = lookups st @
           map date_string_of_ordinal [toordinal origin_date..toordinal (latest_date E)]"
    by (simp only: range_date_strings)
qed

lemma sample_third_day:
  "get_data_for_date sample_env ''12-04-2020'' False state_03 = (Inr aggregate_04, state_04)"
proof -
  obtain parsed where p: "plain_csv_reader (concat report_04) = Inr parsed" "parsed \<noteq> []"
    "aggregate_rows (tl parsed) [] = Inr aggregate_04"
    using sample_parsed(3) by blast
  have "get_data_for_date sample_env ''12-04-2020'' False state_03 =
          (Inr aggregate_04,
           state_03\<lparr>source_cache := (source_cache state_03)(path_name url_04 \<mapsto> report_04),
              extracted_cache := (extracted_cache state_03)(cache_filename url_04 \<mapsto> aggregate_04),
              requests := requests state_03 @ [url_04],
              lookups := lookups state_03 @ [''12-04-2020'']\<rparr>)"
    using p
    by (intro get_data_for_date_miss sample_matches sample_urls)
       (simp_all add: state_03_def state_02_def sample_env_def sample_web_def sample_names)
  then show ?thesis by (simp add: state_04_def sample_names)
qed

lemma sample_latest: "toordinal (latest_date sample_env) - toordinal origin_date = 2"
  by (simp add: sample_env_def toordinal_def origin_date_def timedelta_days_def day_us_def)

lemma upto_0_2: "[0..2::int] = [0, 1, 2]"
  by code_simp

lemma sample_loop_X:
  "country_loop sample_env ''X'' origin_date [0, 1, 2] [] empty_state
     = (Inr [(''12-02-2020'', [10, 1, 2, 3]), (''12-03-2020'', [15, 1, 3, 5]),
             (''12-04-2020'', [16, 1, 3, 6])], state_04)"
  using sample_date_strings(2,3)
  by (simp add: sample_date_strings(1) sample_first_day sample_second_day
      sample_third_day aggregate_02_def aggregate_03_def aggregate_04_def
      timedelta_days_def)

theorem get_country_data_clamps_witness:
  "absent_or_before_origin (Some (origin_date - timedelta_days 5)) \<and>
   absent_or_after_latest sample_env (Some (latest_date sample_env + timedelta_days 3)) \<and>
   get_country_data sample_env ''X'' (Some (origin_date - timedelta_days 5))
       (Some (latest_date sample_env + timedelta_days 3)) empty_state
     = (Inr [(''12-02-2020'', [10, 1, 2, 3]), (''12-03-2020'', [15, 1, 3, 5]),
             (''12-04-2020'', [16, 1, 3, 6])], state_04) \<and>
   lookups state_04 = lookups empty_state @ [''12-02-2020'', ''12-03-2020'', ''12-04-2020'']"
proof -
  have a: "absent_or_before_origin (Some (origin_date - timedelta_days 5))"
    by (simp add: absent_or_before_origin_def timedelta_days_def day_us_def)
  have b: "absent_or_after_latest sample_env (Some (latest_date sample_env + timedelta_days 3))"
    by (simp add: absent_or_after_latest_def timedelta_days_def day_us_def)
  from get_country_data_clamps [of sample_env "''X''" "Some (origin_date - timedelta_days 5)"
      "Some (latest_date sample_env + timedelta_days 3)" empty_state] a b
  have "get_country_data sample_env ''X'' (Some (origin_date - timedelta_days 5))
       (Some (latest_date sample_env + timedelta_days 3)) empty_state
     = country_loop sample_env ''X'' origin_date
         [0..toordinal (latest_date sample_env) - toordinal origin_date] [] empty_state"
    by blast
  then have run: "get_country_data sample_env ''X'' (Some (origin_date - timedelta_days 5))
       (Some (latest_date sample_env + timedelta_days 3)) empty_state
     = (Inr [(''12-02-2020'', [10, 1, 2, 3]), (''12-03-2020'', [15, 1, 3, 5]),
             (''12-04-2020'', [16, 1, 3, 6])], state_04)"
    by (simp only: sample_latest upto_0_2 sample_loop_X)
  have "lookups state_04 = lookups empty_state @ [''12-02-2020'', ''12-03-2020'', ''12-04-2020'']"
    by (simp add: state_04_def state_03_def state_02_def empty_state_def)
  with a b run show ?thesis by blast
qed

subsection \<open>Bulk caching\<close>













subsection \<open>The exceptions a caller sees\<close>







subsection \<open>Day-over-day changes\<close>























end
